theory Spec2Isabelle
  imports Complex_Main "HOL-Library.Char_ord" "HOL-Library.List_Lexorder"
begin

section \<open>Calendar dates as used by the tracker\<close>

text \<open>
  The application works with values of Python's \<^verbatim>\<open>datetime.date\<close>: a proleptic
  Gregorian date with \<^verbatim>\<open>MINYEAR = 1\<close> and \<^verbatim>\<open>MAXYEAR = 9999\<close>. The constructor raises
  \<^verbatim>\<open>ValueError\<close> on an impossible date, and date arithmetic raises
  \<^verbatim>\<open>OverflowError\<close> when the result would leave the supported range. Both are
  results of the model.
\<close>

datatype error = ValueError | OverflowError

record date =
  year :: int
  month :: int
  day :: int

definition MINYEAR :: int where
  "MINYEAR = 1"

definition MAXYEAR :: int where
  "MAXYEAR = 9999"

definition is_leap :: "int \<Rightarrow> bool" where
  "is_leap y = (y mod 4 = 0 \<and> (y mod 100 \<noteq> 0 \<or> y mod 400 = 0))"

definition days_in_month :: "int \<Rightarrow> int \<Rightarrow> int" where
  "days_in_month y m =
     (if m = 2 then (if is_leap y then 29 else 28)
      else if m = 4 \<or> m = 6 \<or> m = 9 \<or> m = 11 then 30
      else 31)"

definition days_before_year :: "int \<Rightarrow> int" where
  "days_before_year y = (y - 1) * 365 + (y - 1) div 4 - (y - 1) div 100 + (y - 1) div 400"

definition days_before_month :: "int \<Rightarrow> int \<Rightarrow> int" where
  "days_before_month y m =
     (if m = 1 then 0 else if m = 2 then 31 else if m = 3 then 59 else if m = 4 then 90
      else if m = 5 then 120 else if m = 6 then 151 else if m = 7 then 181
      else if m = 8 then 212 else if m = 9 then 243 else if m = 10 then 273
      else if m = 11 then 304 else 334)
     + (if 2 < m \<and> is_leap y then 1 else 0)"

definition valid_date :: "date \<Rightarrow> bool" where
  "valid_date d =
     (MINYEAR \<le> year d \<and> year d \<le> MAXYEAR \<and> 1 \<le> month d \<and> month d \<le> 12 \<and>
      1 \<le> day d \<and> day d \<le> days_in_month (year d) (month d))"

text \<open>\<^verbatim>\<open>date(y, m, d)\<close>: the checked constructor.\<close>

definition date_new :: "int \<Rightarrow> int \<Rightarrow> int \<Rightarrow> error + date" where
  "date_new y m d =
     (if valid_date \<lparr>year = y, month = m, day = d\<rparr>
      then Inr \<lparr>year = y, month = m, day = d\<rparr> else Inl ValueError)"

text \<open>\<^verbatim>\<open>d.replace(day=k)\<close> builds a new date through the constructor.\<close>

definition replace_day :: "date \<Rightarrow> int \<Rightarrow> error + date" where
  "replace_day d k = date_new (year d) (month d) k"

definition toordinal :: "date \<Rightarrow> int" where
  "toordinal d = days_before_year (year d) + days_before_month (year d) (month d) + day d"

text \<open>\<^verbatim>\<open>d.weekday()\<close>: Monday is 0, Sunday is 6.\<close>

definition weekday :: "date \<Rightarrow> int" where
  "weekday d = (toordinal d + 6) mod 7"

text \<open>
  Moving a date by one day, forwards and backwards. Leaving the range
  0001-01-01 .. 9999-12-31 is the library's \<^verbatim>\<open>OverflowError\<close>.
\<close>

definition next_day :: "date \<Rightarrow> error + date" where
  "next_day d =
     (if day d < days_in_month (year d) (month d) then Inr (d\<lparr>day := day d + 1\<rparr>)
      else if month d < 12 then Inr \<lparr>year = year d, month = month d + 1, day = 1\<rparr>
      else if year d < MAXYEAR then Inr \<lparr>year = year d + 1, month = 1, day = 1\<rparr>
      else Inl OverflowError)"

definition prev_day :: "date \<Rightarrow> error + date" where
  "prev_day d =
     (if 1 < day d then Inr (d\<lparr>day := day d - 1\<rparr>)
      else if 1 < month d
        then Inr \<lparr>year = year d, month = month d - 1,
                  day = days_in_month (year d) (month d - 1)\<rparr>
      else if MINYEAR < year d then Inr \<lparr>year = year d - 1, month = 12, day = 31\<rparr>
      else Inl OverflowError)"

fun forward :: "nat \<Rightarrow> date \<Rightarrow> error + date" where
  "forward 0 d = Inr d"
| "forward (Suc n) d = (case next_day d of Inl err \<Rightarrow> Inl err | Inr d' \<Rightarrow> forward n d')"

fun backward :: "nat \<Rightarrow> date \<Rightarrow> error + date" where
  "backward 0 d = Inr d"
| "backward (Suc n) d = (case prev_day d of Inl err \<Rightarrow> Inl err | Inr d' \<Rightarrow> backward n d')"

text \<open>\<^verbatim>\<open>d + timedelta(days=n)\<close> and \<^verbatim>\<open>d - timedelta(days=n)\<close>.\<close>

definition add_days :: "date \<Rightarrow> int \<Rightarrow> error + date" where
  "add_days d n = (if 0 \<le> n then forward (nat n) d else backward (nat (- n)) d)"

definition sub_days :: "date \<Rightarrow> int \<Rightarrow> error + date" where
  "sub_days d n = add_days d (- n)"

text \<open>Comparison of dates is comparison of (year, month, day).\<close>

definition date_less :: "date \<Rightarrow> date \<Rightarrow> bool" where
  "date_less a b =
     (year a < year b \<or> year a = year b \<and> (month a < month b \<or> month a = month b \<and> day a < day b))"

definition date_le :: "date \<Rightarrow> date \<Rightarrow> bool" where
  "date_le a b = (date_less a b \<or> a = b)"

text \<open>
  \<^verbatim>\<open>d.isoformat()\<close> is \<^verbatim>\<open>"%04d-%02d-%02d"\<close>: ten characters for every date the
  constructor accepts.
\<close>

definition digit :: "int \<Rightarrow> char" where
  "digit n = char_of (48 + n mod 10)"

definition isoformat :: "date \<Rightarrow> string" where
  "isoformat d =
     [digit (year d div 1000), digit (year d div 100), digit (year d div 10), digit (year d),
      CHR ''-'', digit (month d div 10), digit (month d),
      CHR ''-'', digit (day d div 10), digit (day d)]"

section \<open>Range resolver\<close>

text \<open>
  \<^verbatim>\<open>get_quick_range(name)\<close> reads the clock once (\<^verbatim>\<open>date.today()\<close>); the model takes
  that reading as the argument \<open>today\<close>.
\<close>

definition get_quick_range :: "date \<Rightarrow> string \<Rightarrow> error + (date \<times> date)" where
  "get_quick_range today name =
     (if name = ''This Week (Mon-Sun)'' then
        (case sub_days today (weekday today) of
           Inl err \<Rightarrow> Inl err
         | Inr start \<Rightarrow>
             (case add_days start 6 of
                Inl err \<Rightarrow> Inl err
              | Inr end' \<Rightarrow> Inr (start, end')))
      else if name = ''This Month'' then
        (case replace_day today 1 of
           Inl err \<Rightarrow> Inl err
         | Inr start \<Rightarrow>
             (case date_new (year today) (month today) 28 of
                Inl err \<Rightarrow> Inl err
              | Inr d28 \<Rightarrow>
                  (case add_days d28 4 of
                     Inl err \<Rightarrow> Inl err
                   | Inr e1 \<Rightarrow>
                       (case replace_day e1 1 of
                          Inl err \<Rightarrow> Inl err
                        | Inr e2 \<Rightarrow>
                            (case sub_days e2 1 of
                               Inl err \<Rightarrow> Inl err
                             | Inr end' \<Rightarrow> Inr (start, end'))))))
      else if name = ''This Year'' then
        (case date_new (year today) 1 1 of
           Inl err \<Rightarrow> Inl err
         | Inr start \<Rightarrow>
             (case date_new (year today) 12 31 of
                Inl err \<Rightarrow> Inl err
              | Inr end' \<Rightarrow> Inr (start, end')))
      else Inr (today, today))"

section \<open>Stored records\<close>

text \<open>
  The two tables of the SQLite store. Quantities (\<^verbatim>\<open>REAL\<close> columns, Python floats) are
  modelled as real numbers: the rounding of binary floating point is not represented.
  A \<^verbatim>\<open>NULL\<close> column is \<open>None\<close>. Text is a list of characters, so slicing and length
  count characters as Python's \<^verbatim>\<open>str\<close> does.
\<close>

type_synonym blob = "nat list"

record trip =
  trip_id :: nat
  trip_date :: string
  start_odometer :: "real option"
  end_odometer :: "real option"
  miles :: real
  trip_notes :: "string option"
  odometer_image :: "blob option"
  trip_created_at :: string

record expense =
  expense_id :: nat
  expense_date :: string
  category :: string
  description :: "string option"
  amount :: real
  receipt_image :: "blob option"
  expense_created_at :: string

text \<open>
  The store: the rows of each table in insertion order and the \<^verbatim>\<open>AUTOINCREMENT\<close>
  counters.
\<close>

record db =
  trips_tbl :: "trip list"
  expenses_tbl :: "expense list"
  trips_seq :: nat
  expenses_seq :: nat

definition IRS_RATE_PER_MILE :: real where
  "IRS_RATE_PER_MILE = 0.725"

text \<open>
  \<^verbatim>\<open>insert_trip\<close> and \<^verbatim>\<open>insert_expense\<close>: one \<^verbatim>\<open>INSERT\<close> each. The argument \<open>now\<close> is
  the text of \<^verbatim>\<open>datetime.utcnow().isoformat()\<close>.
\<close>

definition insert_trip ::
  "string \<Rightarrow> real option \<Rightarrow> real option \<Rightarrow> real \<Rightarrow> string \<Rightarrow> blob option \<Rightarrow> string \<Rightarrow> db \<Rightarrow> db" where
  "insert_trip date_text start_odo end_odo miles_val notes_text odometer_image_bytes now s =
     s\<lparr>trips_tbl := trips_tbl s @
          [\<lparr>trip_id = trips_seq s + 1, trip_date = date_text, start_odometer = start_odo,
            end_odometer = end_odo, miles = miles_val, trip_notes = Some notes_text,
            odometer_image = odometer_image_bytes, trip_created_at = now\<rparr>],
       trips_seq := trips_seq s + 1\<rparr>"

definition insert_expense ::
  "string \<Rightarrow> string \<Rightarrow> string \<Rightarrow> real \<Rightarrow> blob option \<Rightarrow> string \<Rightarrow> db \<Rightarrow> db" where
  "insert_expense date_text category_text description_text amount_val receipt_image_bytes now s =
     s\<lparr>expenses_tbl := expenses_tbl s @
          [\<lparr>expense_id = expenses_seq s + 1, expense_date = date_text,
            category = category_text, description = Some description_text,
            amount = amount_val, receipt_image = receipt_image_bytes,
            expense_created_at = now\<rparr>],
       expenses_seq := expenses_seq s + 1\<rparr>"

section \<open>Logging forms\<close>

text \<open>
  What a form shows after a run: \<^verbatim>\<open>st.error\<close> with its text, or \<^verbatim>\<open>st.success\<close>. The
  trip form's success line carries the saved mileage.
\<close>

datatype message = Error_msg string | Saved_trip real | Saved_expense

text \<open>
  \<^verbatim>\<open>show_log_trip\<close>: the widget values are arguments, \<open>save\<close> is the state of the
  ``Save Trip'' button. The result is the message shown, if any, and the store afterwards.
\<close>

definition show_log_trip ::
  "date \<Rightarrow> real \<Rightarrow> real \<Rightarrow> real \<Rightarrow> string \<Rightarrow> blob option \<Rightarrow> bool \<Rightarrow> string \<Rightarrow> db
     \<Rightarrow> message option \<times> db" where
  "show_log_trip trip_day start end' miles_in notes_in img save now s =
     (if save then
        (if miles_in = 0 \<and> start < end' then
           (Some (Saved_trip (end' - start)),
            insert_trip (isoformat trip_day)
              (if 0 < start then Some start else None)
              (if 0 < end' then Some end' else None)
              (end' - start) notes_in img now s)
         else if miles_in = 0 then
           (Some (Error_msg ''Enter miles OR valid odometer readings.''), s)
         else
           (Some (Saved_trip miles_in),
            insert_trip (isoformat trip_day)
              (if 0 < start then Some start else None)
              (if 0 < end' then Some end' else None)
              miles_in notes_in img now s))
      else (None, s))"

definition show_log_expense ::
  "date \<Rightarrow> string \<Rightarrow> real \<Rightarrow> string \<Rightarrow> blob option \<Rightarrow> bool \<Rightarrow> string \<Rightarrow> db
     \<Rightarrow> message option \<times> db" where
  "show_log_expense expense_day category_in amount_in desc receipt save now s =
     (if save then
        (if amount_in \<le> 0 then (Some (Error_msg ''Enter valid amount.''), s)
         else (Some Saved_expense,
               insert_expense (isoformat expense_day) category_in desc amount_in receipt now s))
      else (None, s))"

section \<open>Report renderer\<close>

text \<open>
  The document is modelled by its content: the period line, the three summary figures
  and the two tables. Number formatting, character encoding and page layout are left to
  the PDF library; a cell holds the value that is formatted.
\<close>

record trip_row =
  row_date :: string
  row_miles :: real
  row_notes :: string

record expense_row =
  erow_date :: string
  erow_category :: string
  erow_amount :: real
  erow_description :: string

datatype 'a table = Placeholder string | Rows "'a list"

record document =
  period_from :: string
  period_to :: string
  total_miles :: real
  total_deduction :: real
  total_expenses :: real
  trip_log :: "trip_row table"
  expense_log :: "expense_row table"

text \<open>\<^verbatim>\<open>(x or "")\<close> on a nullable text: \<^verbatim>\<open>None\<close> and the empty string both give \<^verbatim>\<open>""\<close>.\<close>

definition or_empty :: "string option \<Rightarrow> string" where
  "or_empty x = (case x of None \<Rightarrow> [] | Some txt \<Rightarrow> (if txt = [] then [] else txt))"

definition generate_irs_pdf :: "trip list \<Rightarrow> expense list \<Rightarrow> date \<Rightarrow> date \<Rightarrow> document" where
  "generate_irs_pdf trips_df expenses_df start_date end_date =
     (let tm = (if trips_df \<noteq> [] then sum_list (map miles trips_df) else 0);
          td = tm * IRS_RATE_PER_MILE;
          te = (if expenses_df \<noteq> [] then sum_list (map amount expenses_df) else 0)
      in \<lparr>period_from = isoformat start_date,
          period_to = isoformat end_date,
          total_miles = tm,
          total_deduction = td,
          total_expenses = te,
          trip_log =
            (if trips_df = [] then Placeholder ''No trips recorded.''
             else Rows (map (\<lambda>row. \<lparr>row_date = trip_date row, row_miles = miles row,
                                     row_notes = take 70 (or_empty (trip_notes row))\<rparr>) trips_df)),
          expense_log =
            (if expenses_df = [] then Placeholder ''No expenses recorded.''
             else Rows (map (\<lambda>row. \<lparr>erow_date = expense_date row,
                                     erow_category = category row,
                                     erow_amount = amount row,
                                     erow_description = take 70 (or_empty (description row))\<rparr>)
                          expenses_df))\<rparr>)"

section \<open>Reports page\<close>

text \<open>
  The two row selections of \<^verbatim>\<open>show_reports\<close>: a comparison of the stored date text
  with the ISO text of the bounds, character by character.
\<close>

definition trips_in_range :: "trip list \<Rightarrow> date \<Rightarrow> date \<Rightarrow> trip list" where
  "trips_in_range trips start end' =
     (if trips \<noteq> []
      then filter (\<lambda>r. isoformat start \<le> trip_date r \<and> trip_date r \<le> isoformat end') trips
      else trips)"

definition expenses_in_range :: "expense list \<Rightarrow> date \<Rightarrow> date \<Rightarrow> expense list" where
  "expenses_in_range expenses start end' =
     (if expenses \<noteq> []
      then filter (\<lambda>r. isoformat start \<le> expense_date r \<and> expense_date r \<le> isoformat end')
             expenses
      else expenses)"

record report =
  range_start :: date
  range_end :: date
  shown_trips :: "trip list"
  shown_expenses :: "expense list"
  miles_metric :: real
  expenses_metric :: real
  pdf :: "document option"

datatype view = No_data | Report report

text \<open>
  \<^verbatim>\<open>show_reports\<close>: \<open>trips\<close> and \<open>expenses\<close> are the frames returned by
  \<^verbatim>\<open>load_trips_df\<close> and \<^verbatim>\<open>load_expenses_df\<close>, \<open>quick\<close> the selected range name,
  \<open>custom_start\<close> and \<open>custom_end\<close> the two date inputs of the ``Custom'' mode, and
  \<open>generate\<close> the state of the ``Generate IRS PDF'' button.
\<close>

definition show_reports ::
  "date \<Rightarrow> trip list \<Rightarrow> expense list \<Rightarrow> string \<Rightarrow> date \<Rightarrow> date \<Rightarrow> bool \<Rightarrow> error + view" where
  "show_reports today trips expenses quick custom_start custom_end generate =
     (if trips = [] \<and> expenses = [] then Inr No_data
      else
        (case (if quick = ''Custom'' then Inr (custom_start, custom_end)
               else get_quick_range today quick) of
           Inl err \<Rightarrow> Inl err
         | Inr (start, end') \<Rightarrow>
             (let t = trips_in_range trips start end';
                  e = expenses_in_range expenses start end'
              in Inr (Report
                   \<lparr>range_start = start, range_end = end',
                    shown_trips = t, shown_expenses = e,
                    miles_metric = (if t \<noteq> [] then sum_list (map miles t) else 0),
                    expenses_metric = (if e \<noteq> [] then sum_list (map amount e) else 0),
                    pdf = (if generate then Some (generate_irs_pdf t e start end')
                           else None)\<rparr>))))"

section \<open>Sample records\<close>

text \<open>Concrete rows and an empty store, used where a property is run on an example.\<close>

definition sample_trip :: "string \<Rightarrow> real \<Rightarrow> string option \<Rightarrow> trip" where
  "sample_trip d m n = \<lparr>trip_id = 1, trip_date = d, start_odometer = None,
     end_odometer = None, miles = m, trip_notes = n, odometer_image = None,
     trip_created_at = ''2024-03-10T18:00:00''\<rparr>"

definition sample_expense :: "string \<Rightarrow> real \<Rightarrow> string option \<Rightarrow> expense" where
  "sample_expense d a n = \<lparr>expense_id = 1, expense_date = d, category = ''Gas'',
     description = n, amount = a, receipt_image = None,
     expense_created_at = ''2024-03-10T18:05:00''\<rparr>"

definition empty_db :: db where
  "empty_db = \<lparr>trips_tbl = [], expenses_tbl = [], trips_seq = 0, expenses_seq = 0\<rparr>"

section \<open>ISO date text orders like the calendar\<close>

text \<open>
  Comparing two numbers digit by digit, most significant digit first, is comparing the
  numbers, as long as both have the same number of digits. The lemmas carry a
  continuation \<open>R\<close> for what follows the digits in the text.
\<close>

lemma pair_lex:
  fixes x y k :: int
  assumes "0 < k"
  shows "(x div k < y div k \<or> x div k = y div k \<and> (x mod k < y mod k \<or> x mod k = y mod k \<and> R))
          \<longleftrightarrow> (x < y \<or> x = y \<and> R)"
proof -
  have x: "x = k * (x div k) + x mod k" and y: "y = k * (y div k) + y mod k" by simp_all
  have bx: "0 \<le> x mod k" "x mod k < k" and by': "0 \<le> y mod k" "y mod k < k"
    using assms by simp_all
  have lt: "x div k < y div k \<Longrightarrow> x < y"
    using assms zdiv_mono1 linorder_not_less by blast
  have gt: "y div k < x div k \<Longrightarrow> y < x"
    using assms zdiv_mono1 linorder_not_less by blast
  have eq: "x div k = y div k \<Longrightarrow> (x < y \<longleftrightarrow> x mod k < y mod k) \<and> (x = y \<longleftrightarrow> x mod k = y mod k)"
    by (metis x y add_left_cancel add_less_cancel_left)
  show ?thesis
    using lt gt eq by (metis linorder_less_linear order_less_asym order_less_irrefl)
qed


lemma digit_shift:
  fixes x b :: int
  assumes "0 < b"
  shows "x div b mod 10 = x mod (b * 10) div b"
proof -
  have "x mod (b * 10) = b * (x div b mod 10) + x mod b"
    by (rule zmod_zmult2_eq) simp
  moreover have "(b * (x div b mod 10) + x mod b) div b = x div b mod 10"
    using assms by simp
  ultimately show ?thesis by simp
qed

lemma digits_of:
  fixes x :: int
  shows "x div 100 mod 10 = x mod 1000 div 100"
    and "x div 10 mod 10 = x mod 100 div 10"
    and "x mod 10 = x mod 100 mod 10"
    and "x mod 100 = x mod 1000 mod 100"
proof -
  have "x div 100 mod 10 = x mod (100 * 10) div 100" by (rule digit_shift) simp
  then show "x div 100 mod 10 = x mod 1000 div 100" by simp
  have "x div 10 mod 10 = x mod (10 * 10) div 10" by (rule digit_shift) simp
  then show "x div 10 mod 10 = x mod 100 div 10" by simp
  show "x mod 10 = x mod 100 mod 10" by (rule mod_mod_cancel[symmetric]) simp
  show "x mod 100 = x mod 1000 mod 100" by (rule mod_mod_cancel[symmetric]) simp
qed

lemma leading_digit2:
  fixes x :: int
  assumes "0 \<le> x" "x \<le> 99"
  shows "x div 10 mod 10 = x div 10"
proof -
  have "x div 10 \<le> 99 div 10" using assms(2) by (rule zdiv_mono1) simp
  moreover have "0 \<le> x div 10" using assms(1) by (simp add: pos_imp_zdiv_nonneg_iff)
  ultimately show ?thesis by simp
qed

lemma leading_digit4:
  fixes x :: int
  assumes "0 \<le> x" "x \<le> 9999"
  shows "x div 1000 mod 10 = x div 1000"
proof -
  have "x div 1000 \<le> 9999 div 1000" using assms(2) by (rule zdiv_mono1) simp
  moreover have "0 \<le> x div 1000" using assms(1) by (simp add: pos_imp_zdiv_nonneg_iff)
  ultimately show ?thesis by simp
qed

lemma lex2:
  fixes x y :: int
  assumes "0 \<le> x" "x \<le> 99" "0 \<le> y" "y \<le> 99"
  shows "(x div 10 mod 10 < y div 10 mod 10 \<or> x div 10 mod 10 = y div 10 mod 10 \<and>
          (x mod 10 < y mod 10 \<or> x mod 10 = y mod 10 \<and> R)) \<longleftrightarrow> (x < y \<or> x = y \<and> R)"
proof -
  have "x div 10 mod 10 = x div 10" "y div 10 mod 10 = y div 10"
    using assms by (simp_all only: leading_digit2)
  then show ?thesis
    using pair_lex[of 10 x y R] by simp
qed

lemma lex4:
  fixes x y :: int
  assumes "0 \<le> x" "x \<le> 9999" "0 \<le> y" "y \<le> 9999"
  shows "(x div 1000 mod 10 < y div 1000 mod 10 \<or> x div 1000 mod 10 = y div 1000 mod 10 \<and>
          (x div 100 mod 10 < y div 100 mod 10 \<or> x div 100 mod 10 = y div 100 mod 10 \<and>
           (x div 10 mod 10 < y div 10 mod 10 \<or> x div 10 mod 10 = y div 10 mod 10 \<and>
            (x mod 10 < y mod 10 \<or> x mod 10 = y mod 10 \<and> R)))) \<longleftrightarrow> (x < y \<or> x = y \<and> R)"
    (is "?L \<longleftrightarrow> ?R")
proof -
  define R1 where "R1 = (x mod 100 < y mod 100 \<or> x mod 100 = y mod 100 \<and> R)"
  define R2 where "R2 = (x mod 1000 < y mod 1000 \<or> x mod 1000 = y mod 1000 \<and> R)"
  have hi: "x div 1000 mod 10 = x div 1000" "y div 1000 mod 10 = y div 1000"
    using assms by (simp_all only: leading_digit4)
  have s1: "(x div 10 mod 10 < y div 10 mod 10 \<or> x div 10 mod 10 = y div 10 mod 10 \<and>
            (x mod 10 < y mod 10 \<or> x mod 10 = y mod 10 \<and> R)) \<longleftrightarrow> R1"
    unfolding R1_def digits_of(2)[of x] digits_of(2)[of y] digits_of(3)[of x] digits_of(3)[of y]
    by (rule pair_lex) simp
  have s2: "(x div 100 mod 10 < y div 100 mod 10 \<or> x div 100 mod 10 = y div 100 mod 10 \<and> R1)
             \<longleftrightarrow> R2"
    unfolding R1_def R2_def digits_of(1)[of x] digits_of(1)[of y] digits_of(4)[of x] digits_of(4)[of y]
    by (rule pair_lex) simp
  have s3: "(x div 1000 < y div 1000 \<or> x div 1000 = y div 1000 \<and> R2) \<longleftrightarrow> ?R"
    unfolding R2_def by (rule pair_lex) simp
  show ?thesis
    unfolding hi s1 s2 s3 ..
qed


lemma of_char_digit: "int (of_char (digit n)) = 48 + n mod 10"
proof -
  have "0 \<le> n mod 10" "n mod 10 < 10" by simp_all
  then have small: "(48 + n mod 10) mod 256 = 48 + n mod 10" by simp
  have "(of_char (digit n) :: int) = (48 + n mod 10) mod 256"
    unfolding digit_def by (simp only: of_char_of)
  then show ?thesis
    by (simp only: of_nat_of_char small)
qed

lemma digit_less: "digit a < digit b \<longleftrightarrow> a mod 10 < b mod 10"
proof -
  have "digit a < digit b \<longleftrightarrow> int (of_char (digit a)) < int (of_char (digit b))"
    by (simp add: less_char_def)
  then show ?thesis by (simp only: of_char_digit) simp
qed

lemma digit_eq: "digit a = digit b \<longleftrightarrow> a mod 10 = b mod 10"
proof -
  have "digit a = digit b \<longleftrightarrow> (of_char (digit a) :: nat) = of_char (digit b)"
    by simp
  also have "\<dots> \<longleftrightarrow> int (of_char (digit a)) = int (of_char (digit b))"
    by (simp only: of_nat_eq_iff)
  also have "\<dots> \<longleftrightarrow> a mod 10 = b mod 10"
    by (simp only: of_char_digit) simp
  finally show ?thesis .
qed

lemma valid_date_bounds:
  assumes "valid_date a"
  shows "0 \<le> year a" "year a \<le> 9999" "0 \<le> month a" "month a \<le> 99" "0 \<le> day a" "day a \<le> 99"
  using assms
  by (simp_all add: valid_date_def MINYEAR_def MAXYEAR_def days_in_month_def split: if_splits)

lemma lex2_last:
  fixes x y :: int
  assumes "0 \<le> x" "x \<le> 99" "0 \<le> y" "y \<le> 99"
  shows "(x div 10 mod 10 < y div 10 mod 10 \<or> x div 10 mod 10 = y div 10 mod 10 \<and>
          x mod 10 < y mod 10) \<longleftrightarrow> x < y"
  using lex2[OF assms, of False] by simp

lemma isoformat_less:
  assumes a: "valid_date a" and b: "valid_date b"
  shows "isoformat a < isoformat b \<longleftrightarrow> date_less a b"
  unfolding isoformat_def date_less_def
  by (simp only: Cons_less_Cons digit_less digit_eq not_less_Nil simp_thms less_irrefl
        lex4[OF valid_date_bounds(1,2)[OF a] valid_date_bounds(1,2)[OF b]]
        lex2[OF valid_date_bounds(3,4)[OF a] valid_date_bounds(3,4)[OF b]]
        lex2_last[OF valid_date_bounds(5,6)[OF a] valid_date_bounds(5,6)[OF b]])

text \<open>
  Hence the ISO text of two dates compares as the dates do, and no text lies between the
  bounds of an inverted range.
\<close>

lemma date_trichotomy: "date_less a b \<or> a = b \<or> date_less b a"
  by (cases a; cases b) (auto simp add: date_less_def)

lemma date_less_asym: "date_less a b \<Longrightarrow> \<not> date_less b a"
  by (auto simp add: date_less_def)

lemma date_less_irrefl: "\<not> date_less a a"
  by (simp add: date_less_def)

lemma isoformat_le:
  assumes a: "valid_date a" and b: "valid_date b"
  shows "isoformat a \<le> isoformat b \<longleftrightarrow> date_le a b"
proof -
  have "isoformat a \<le> isoformat b \<longleftrightarrow> \<not> isoformat b < isoformat a"
    by (simp add: not_less)
  also have "\<dots> \<longleftrightarrow> \<not> date_less b a"
    by (simp only: isoformat_less[OF b a])
  also have "\<dots> \<longleftrightarrow> date_le a b"
    using date_trichotomy[of a b] date_less_asym[of a b] date_less_irrefl[of a]
    by (auto simp add: date_le_def)
  finally show ?thesis .
qed


lemma date_less_not_le: "date_less a b \<Longrightarrow> \<not> date_le b a"
  using date_less_asym[of a b] date_less_irrefl[of a] by (auto simp add: date_le_def)


lemma inverted_range_empty:
  assumes "valid_date cs" "valid_date ce" "date_less ce cs"
  shows "\<not> (isoformat cs \<le> x \<and> x \<le> isoformat ce)"
proof
  assume "isoformat cs \<le> x \<and> x \<le> isoformat ce"
  then have "isoformat cs \<le> isoformat ce" by (meson order_trans)
  then have "date_le cs ce" using isoformat_le[OF assms(1,2)] by simp
  with date_less_not_le[OF assms(3)] show False by simp
qed

section \<open>Stepping through the calendar\<close>

text \<open>A step forwards or backwards stays inside the calendar and moves the right way.\<close>

lemma days_in_month_range: "28 \<le> days_in_month y m" "days_in_month y m \<le> 31"
  by (simp_all add: days_in_month_def)

lemma next_day_later:
  assumes v: "valid_date d" and n: "next_day d = Inr d'"
  shows "valid_date d' \<and> date_less d d'"
proof -
  from v have y: "MINYEAR \<le> year d" "year d \<le> MAXYEAR" and m: "1 \<le> month d" "month d \<le> 12"
    and dd: "1 \<le> day d" "day d \<le> days_in_month (year d) (month d)"
    by (simp_all add: valid_date_def)
  consider (a) "day d < days_in_month (year d) (month d)"
    | (b) "\<not> day d < days_in_month (year d) (month d)" "month d < 12"
    | (c) "\<not> day d < days_in_month (year d) (month d)" "\<not> month d < 12" "year d < MAXYEAR"
    | (e) "\<not> day d < days_in_month (year d) (month d)" "\<not> month d < 12" "\<not> year d < MAXYEAR"
    by blast
  then show ?thesis
  proof cases
    case a
    with n have "d' = d\<lparr>day := day d + 1\<rparr>" by (simp add: next_day_def)
    with a y m dd show ?thesis by (simp add: valid_date_def date_less_def)
  next
    case b
    with n have d': "d' = \<lparr>year = year d, month = month d + 1, day = 1\<rparr>"
      by (simp add: next_day_def)
    have "1 \<le> days_in_month (year d) (month d + 1)"
      using days_in_month_range(1)[of "year d" "month d + 1"] by simp
    with d' b y m show ?thesis by (simp add: valid_date_def date_less_def)
  next
    case c
    with n have d': "d' = \<lparr>year = year d + 1, month = 1, day = 1\<rparr>"
      by (simp add: next_day_def)
    have "days_in_month (year d + 1) 1 = 31" by (simp add: days_in_month_def)
    with d' c y show ?thesis by (simp add: valid_date_def date_less_def MINYEAR_def)
  next
    case e
    with n show ?thesis by (simp add: next_day_def)
  qed
qed

lemma prev_day_earlier:
  assumes v: "valid_date d" and n: "prev_day d = Inr d'"
  shows "valid_date d' \<and> year d' \<le> year d"
proof -
  from v have y: "MINYEAR \<le> year d" "year d \<le> MAXYEAR" and m: "1 \<le> month d" "month d \<le> 12"
    and dd: "1 \<le> day d" "day d \<le> days_in_month (year d) (month d)"
    by (simp_all add: valid_date_def)
  consider (a) "1 < day d"
    | (b) "\<not> 1 < day d" "1 < month d"
    | (c) "\<not> 1 < day d" "\<not> 1 < month d" "MINYEAR < year d"
    | (e) "\<not> 1 < day d" "\<not> 1 < month d" "\<not> MINYEAR < year d"
    by blast
  then show ?thesis
  proof cases
    case a
    with n have "d' = d\<lparr>day := day d - 1\<rparr>" by (simp add: prev_day_def)
    with a y m dd show ?thesis by (simp add: valid_date_def)
  next
    case b
    with n have d': "d' = \<lparr>year = year d, month = month d - 1,
        day = days_in_month (year d) (month d - 1)\<rparr>"
      by (simp add: prev_day_def)
    have "1 \<le> days_in_month (year d) (month d - 1)"
      using days_in_month_range(1)[of "year d" "month d - 1"] by simp
    with d' b y m show ?thesis by (simp add: valid_date_def)
  next
    case c
    with n have d': "d' = \<lparr>year = year d - 1, month = 12, day = 31\<rparr>"
      by (simp add: prev_day_def)
    have "days_in_month (year d - 1) 12 = 31" by (simp add: days_in_month_def)
    with d' c y show ?thesis by (simp add: valid_date_def)
  next
    case e
    with n show ?thesis by (simp add: prev_day_def)
  qed
qed


text \<open>
  The steps agree with the day numbering of the library (\<^verbatim>\<open>toordinal\<close>, which
  \<^verbatim>\<open>weekday\<close> is computed from): a step forwards adds one, a step backwards takes one
  away, and the calendar runs from day 1 to day 3652059.
\<close>

lemma div_step:
  fixes y k :: int
  assumes "1 < k"
  shows "y div k - (y - 1) div k = (if y mod k = 0 then 1 else 0)"
proof -
  define q where "q = (y - 1) div k"
  define r where "r = (y - 1) mod k"
  have r: "0 \<le> r" "r < k" using assms by (simp_all add: r_def)
  have y: "y = k * q + (r + 1)" by (simp add: q_def r_def)
  show ?thesis
  proof (cases "r + 1 = k")
    case True
    then have "y = k * (q + 1)" using y by (simp add: algebra_simps)
    then have "y div k = q + 1" "y mod k = 0" using assms by simp_all
    then show ?thesis by (simp add: q_def)
  next
    case False
    with r have lt: "r + 1 < k" "0 \<le> r + 1" by simp_all
    have "y div k = q" using y lt
      by (metis add.commute add.right_neutral div_mult_self2 div_pos_pos_trivial
          less_irrefl mult.commute assms order_less_trans zero_less_one)
    moreover have "y mod k = r + 1" using y lt
      by (metis mod_mult_self4 mod_pos_pos_trivial)
    ultimately show ?thesis using r by (simp add: q_def)
  qed
qed


lemma days_before_next_year:
  "days_before_year (y + 1) = days_before_year y + (if is_leap y then 366 else 365)"
proof -
  have "(100::int) dvd 400" "(4::int) dvd 100" by simp_all
  then have d: "y mod 400 = 0 \<Longrightarrow> y mod 100 = 0" "y mod 100 = 0 \<Longrightarrow> y mod 4 = 0"
    by (meson dvd_trans mod_eq_0_iff_dvd)+
  have a: "y div 4 = (y - 1) div 4 + (if y mod 4 = 0 then 1 else 0)"
    using div_step[of 4 y] by simp
  have b: "y div 100 = (y - 1) div 100 + (if y mod 100 = 0 then 1 else 0)"
    using div_step[of 100 y] by simp
  have c: "y div 400 = (y - 1) div 400 + (if y mod 400 = 0 then 1 else 0)"
    using div_step[of 400 y] by simp
  have e: "days_before_year (y + 1)
      = days_before_year y + 365 + (if y mod 4 = 0 then 1 else 0)
          - (if y mod 100 = 0 then 1 else 0) + (if y mod 400 = 0 then 1 else 0)"
    unfolding days_before_year_def
    by (simp only: add_diff_cancel_right' a b c) (simp add: algebra_simps)
  show ?thesis
  proof (cases "y mod 4 = 0")
    case False
    with d have "y mod 100 \<noteq> 0 \<and> y mod 400 \<noteq> 0" by auto
    with False e show ?thesis by (simp add: is_leap_def)
  next
    case True
    show ?thesis
    proof (cases "y mod 100 = 0")
      case False
      with d have "y mod 400 \<noteq> 0" by auto
      with True False e show ?thesis by (simp add: is_leap_def)
    next
      case h: True
      with True e show ?thesis by (cases "y mod 400 = 0") (simp_all add: is_leap_def)
    qed
  qed
qed


lemma days_before_next_month:
  assumes "1 \<le> m" "m < 12"
  shows "days_before_month y (m + 1) = days_before_month y m + days_in_month y m"
proof -
  from assms have "m = 1 \<or> m = 2 \<or> m = 3 \<or> m = 4 \<or> m = 5 \<or> m = 6 \<or> m = 7 \<or> m = 8
      \<or> m = 9 \<or> m = 10 \<or> m = 11" by arith
  then show ?thesis
    by (elim disjE) (simp_all add: days_before_month_def days_in_month_def)
qed

lemma toordinal_next_day:
  assumes v: "valid_date d" and n: "next_day d = Inr d'"
  shows "toordinal d' = toordinal d + 1"
proof -
  from v have m: "1 \<le> month d" "month d \<le> 12"
    and dd: "day d \<le> days_in_month (year d) (month d)"
    by (simp_all add: valid_date_def)
  show ?thesis
  proof (cases "day d < days_in_month (year d) (month d)")
    case True
    with n have "d' = d\<lparr>day := day d + 1\<rparr>" by (simp add: next_day_def)
    then show ?thesis by (simp add: toordinal_def)
  next
    case False
    with dd have last: "day d = days_in_month (year d) (month d)" by simp
    show ?thesis
    proof (cases "month d < 12")
      case True
      with False n have "d' = \<lparr>year = year d, month = month d + 1, day = 1\<rparr>"
        by (simp add: next_day_def)
      then show ?thesis
        using days_before_next_month[OF m(1) True, of "year d"] last
        by (simp add: toordinal_def)
    next
      case nm: False
      with m have m12: "month d = 12" by simp
      from False nm n have d': "d' = \<lparr>year = year d + 1, month = 1, day = 1\<rparr>"
        by (simp add: next_day_def split: if_splits)
      have "toordinal d = days_before_year (year d) + (if is_leap (year d) then 366 else 365)"
        using m12 last by (simp add: toordinal_def days_in_month_def days_before_month_def)
      moreover have "toordinal d' = days_before_year (year d + 1) + 1"
        using d' by (simp add: toordinal_def days_before_month_def)
      ultimately show ?thesis
        by (simp only: days_before_next_year)
    qed
  qed
qed

lemma toordinal_first: "toordinal \<lparr>year = 1, month = 1, day = 1\<rparr> = 1"
  by (simp add: toordinal_def days_before_year_def days_before_month_def)

lemma toordinal_last: "toordinal \<lparr>year = 9999, month = 12, day = 31\<rparr> = 3652059"
  by (simp add: toordinal_def days_before_year_def days_before_month_def is_leap_def)


lemma toordinal_prev_day:
  assumes v: "valid_date d" and n: "prev_day d = Inr d'"
  shows "toordinal d' = toordinal d - 1"
proof -
  from v have m: "1 \<le> month d" "month d \<le> 12" and dd: "1 \<le> day d"
    by (simp_all add: valid_date_def)
  show ?thesis
  proof (cases "1 < day d")
    case True
    with n have "d' = d\<lparr>day := day d - 1\<rparr>" by (simp add: prev_day_def)
    then show ?thesis by (simp add: toordinal_def)
  next
    case False
    with dd have first: "day d = 1" by simp
    show ?thesis
    proof (cases "1 < month d")
      case True
      with False n have d': "d' = \<lparr>year = year d, month = month d - 1,
          day = days_in_month (year d) (month d - 1)\<rparr>"
        by (simp add: prev_day_def)
      have "1 \<le> month d - 1" "month d - 1 < 12" using True m by simp_all
      from days_before_next_month[OF this, of "year d"] d' first show ?thesis
        by (simp add: toordinal_def)
    next
      case nm: False
      with m have m1: "month d = 1" by simp
      from False nm n have d': "d' = \<lparr>year = year d - 1, month = 12, day = 31\<rparr>"
        by (simp add: prev_day_def split: if_splits)
      have "toordinal d' = days_before_year (year d - 1)
          + (if is_leap (year d - 1) then 366 else 365)"
        using d' by (simp add: toordinal_def days_before_month_def)
      moreover have "toordinal d = days_before_year (year d - 1 + 1) + 1"
        using m1 first by (simp add: toordinal_def days_before_month_def)
      ultimately show ?thesis
        by (simp only: days_before_next_year)
    qed
  qed
qed

text \<open>
  Day 28 exists in every month; four days later the date is in the following month,
  unless the month is December 9999.
\<close>

lemma dim_gt: "1 < days_in_month y m" "2 < days_in_month y m" "3 < days_in_month y m"
  by (simp_all add: days_in_month_def)

lemma forward_28_4:
  assumes "1 \<le> m" "m \<le> 12"
  shows "forward 4 \<lparr>year = y, month = m, day = 28\<rparr> =
     (if m < 12 then Inr \<lparr>year = y, month = m + 1, day = 32 - days_in_month y m\<rparr>
      else if y < MAXYEAR then Inr \<lparr>year = y + 1, month = 1, day = 1\<rparr>
      else Inl OverflowError)"
proof -
  have four: "(4::nat) = Suc (Suc (Suc (Suc 0)))" by simp
  have "days_in_month y m = 28 \<or> days_in_month y m = 29
    \<or> days_in_month y m = 30 \<or> days_in_month y m = 31"
    by (simp add: days_in_month_def)
  then consider (a) "days_in_month y m = 28" | (b) "days_in_month y m = 29"
    | (c) "days_in_month y m = 30" | (d) "days_in_month y m = 31"
    by blast
  then show ?thesis
  proof cases
    case a
    then have "m = 2" by (simp add: days_in_month_def split: if_splits)
    with a show ?thesis unfolding four by (simp add: next_day_def dim_gt)
  next
    case b
    then have "m = 2" by (simp add: days_in_month_def split: if_splits)
    with b show ?thesis unfolding four by (simp add: next_day_def dim_gt)
  next
    case c
    then have "m < 12" using assms by (auto simp add: days_in_month_def split: if_splits)
    with c show ?thesis unfolding four by (simp add: next_day_def dim_gt)
  next
    case d
    with assms show ?thesis unfolding four by (simp add: next_day_def dim_gt)
  qed
qed

lemma this_month_general:
  assumes v: "valid_date today" and nd: "\<not> (year today = MAXYEAR \<and> month today = 12)"
  shows "get_quick_range today ''This Month'' =
     Inr (today\<lparr>day := 1\<rparr>, today\<lparr>day := days_in_month (year today) (month today)\<rparr>)"
proof -
  obtain y m d where t: "today = \<lparr>year = y, month = m, day = d\<rparr>" by (cases today) auto
  from v t have m: "1 \<le> m" "m \<le> 12" and y: "MINYEAR \<le> y" "y \<le> MAXYEAR"
    by (simp_all add: valid_date_def)
  have s: "replace_day today 1 = Inr \<lparr>year = y, month = m, day = 1\<rparr>"
    using m y t by (simp add: replace_day_def date_new_def valid_date_def days_in_month_def)
  have d28: "date_new y m 28 = Inr \<lparr>year = y, month = m, day = 28\<rparr>"
    using m y by (simp add: date_new_def valid_date_def days_in_month_def)
  show ?thesis
  proof (cases "m < 12")
    case True
    have a: "add_days \<lparr>year = y, month = m, day = 28\<rparr> 4 = Inr \<lparr>year = y, month = m + 1, day = 32 - days_in_month y m\<rparr>"
      using forward_28_4[OF m, of y] True by (simp add: add_days_def)
    have r: "replace_day \<lparr>year = y, month = m + 1, day = 32 - days_in_month y m\<rparr> 1 = Inr \<lparr>year = y, month = m + 1, day = 1\<rparr>"
      using m y True by (simp add: replace_day_def date_new_def valid_date_def days_in_month_def)
    have b: "sub_days \<lparr>year = y, month = m + 1, day = 1\<rparr> 1 = Inr \<lparr>year = y, month = m, day = days_in_month y m\<rparr>"
      using m by (simp add: sub_days_def add_days_def prev_day_def)
    show ?thesis using t s d28 a r b by (simp add: get_quick_range_def)
  next
    case False
    with m have m12: "m = 12" by simp
    with nd t y have y': "y < MAXYEAR" by simp
    have a: "add_days \<lparr>year = y, month = m, day = 28\<rparr> 4 = Inr \<lparr>year = y + 1, month = 1, day = 1\<rparr>"
      using forward_28_4[OF m, of y] m12 y' by (simp add: add_days_def)
    have r: "replace_day \<lparr>year = y + 1, month = 1, day = 1\<rparr> 1 = Inr \<lparr>year = y + 1, month = 1, day = 1\<rparr>"
      using y y' by (simp add: replace_day_def date_new_def valid_date_def days_in_month_def MINYEAR_def)
    have b: "sub_days \<lparr>year = y + 1, month = 1, day = 1\<rparr> 1 = Inr \<lparr>year = y, month = 12, day = 31\<rparr>"
      using y by (simp add: sub_days_def add_days_def prev_day_def MINYEAR_def)
    show ?thesis using t s d28 a r b m12 by (simp add: get_quick_range_def days_in_month_def)
  qed
qed

lemma this_month_overflow:
  assumes v: "valid_date today" and nd: "year today = MAXYEAR \<and> month today = 12"
  shows "get_quick_range today ''This Month'' = Inl OverflowError"
proof -
  obtain y m d where t: "today = \<lparr>year = y, month = m, day = d\<rparr>" by (cases today) auto
  from v t nd have m: "m = 12" and y: "y = MAXYEAR"
    by (simp_all add: valid_date_def)
  have s: "replace_day today 1 = Inr \<lparr>year = y, month = m, day = 1\<rparr>"
    using m y t by (simp add: replace_day_def date_new_def valid_date_def days_in_month_def MINYEAR_def MAXYEAR_def)
  have d28: "date_new y m 28 = Inr \<lparr>year = y, month = m, day = 28\<rparr>"
    using m y by (simp add: date_new_def valid_date_def days_in_month_def MINYEAR_def MAXYEAR_def)
  have a: "add_days \<lparr>year = y, month = m, day = 28\<rparr> 4 = Inl OverflowError"
    using forward_28_4[of m y] m y by (simp add: add_days_def)
  show ?thesis using t s d28 a by (simp add: get_quick_range_def)
qed


text \<open>
  A few steps backwards succeed unless the date is in the first days of year 1, and they
  lead to an earlier date whose day number is smaller by the number of steps. A few steps
  forwards succeed unless they pass 31 December 9999. So ``This Week (Mon-Sun)'' succeeds
  up to Sunday 9999-12-26 and fails from Monday 9999-12-27 on.
\<close>

lemma prev_day_less:
  assumes v: "valid_date d" and n: "prev_day d = Inr d'"
  shows "date_less d' d"
proof -
  from v have m: "1 \<le> month d" by (simp add: valid_date_def)
  consider (a) "1 < day d"
    | (b) "\<not> 1 < day d" "1 < month d"
    | (c) "\<not> 1 < day d" "\<not> 1 < month d" "MINYEAR < year d"
    | (e) "\<not> 1 < day d" "\<not> 1 < month d" "\<not> MINYEAR < year d"
    by blast
  then show ?thesis
  proof cases
    case a
    with n have "d' = d\<lparr>day := day d - 1\<rparr>" by (simp add: prev_day_def)
    then show ?thesis by (simp add: date_less_def)
  next
    case b
    with n have "d' = \<lparr>year = year d, month = month d - 1,
        day = days_in_month (year d) (month d - 1)\<rparr>"
      by (simp add: prev_day_def)
    then show ?thesis by (simp add: date_less_def)
  next
    case c
    with n have "d' = \<lparr>year = year d - 1, month = 12, day = 31\<rparr>"
      by (simp add: prev_day_def)
    then show ?thesis by (simp add: date_less_def)
  next
    case e
    with n show ?thesis by (simp add: prev_day_def)
  qed
qed

lemma date_less_trans: "date_less a b \<Longrightarrow> date_less b c \<Longrightarrow> date_less a c"
  unfolding date_less_def by linarith

lemma date_le_less_trans: "date_le a b \<Longrightarrow> date_less b c \<Longrightarrow> date_le a c"
  using date_less_trans[of a b c] by (auto simp add: date_le_def)

lemma backward_props:
  assumes "valid_date d" "n \<le> 27"
    "MINYEAR < year d \<or> 1 < month d \<or> int n < day d"
  shows "\<exists>d'. backward n d = Inr d' \<and> valid_date d' \<and> date_le d' d
           \<and> toordinal d' = toordinal d - int n"
  using assms
proof (induction n arbitrary: d)
  case 0
  then show ?case by (simp add: date_le_def)
next
  case (Suc n)
  have v: "valid_date d" by fact
  have inv: "MINYEAR < year d \<or> 1 < month d \<or> int (Suc n) < day d" by fact
  have n27: "n \<le> 27" using Suc.prems(2) by simp
  have step: "\<exists>d1. prev_day d = Inr d1 \<and>
      (MINYEAR < year d1 \<or> 1 < month d1 \<or> int n < day d1)"
  proof (cases "1 < day d")
    case True
    then have "prev_day d = Inr (d\<lparr>day := day d - 1\<rparr>)" by (simp add: prev_day_def)
    with inv show ?thesis by auto
  next
    case False
    with inv have ym: "MINYEAR < year d \<or> 1 < month d" by auto
    show ?thesis
    proof (cases "1 < month d")
      case True
      with False have "prev_day d = Inr \<lparr>year = year d, month = month d - 1,
          day = days_in_month (year d) (month d - 1)\<rparr>"
        by (simp add: prev_day_def)
      moreover have "int n < days_in_month (year d) (month d - 1)"
        using days_in_month_range(1)[of "year d" "month d - 1"] Suc.prems(2) by simp
      ultimately show ?thesis by simp
    next
      case nm: False
      with False ym have "prev_day d = Inr \<lparr>year = year d - 1, month = 12, day = 31\<rparr>"
        by (simp add: prev_day_def)
      then show ?thesis by simp
    qed
  qed
  then obtain d1 where d1: "prev_day d = Inr d1"
    and inv1: "MINYEAR < year d1 \<or> 1 < month d1 \<or> int n < day d1" by blast
  have v1: "valid_date d1" using prev_day_earlier[OF v d1] by simp
  have l1: "date_less d1 d" by (rule prev_day_less[OF v d1])
  have o1: "toordinal d1 = toordinal d - 1" by (rule toordinal_prev_day[OF v d1])
  from Suc.IH[OF v1 n27 inv1] obtain d' where
    b: "backward n d1 = Inr d'" and vd: "valid_date d'" and le: "date_le d' d1"
    and o: "toordinal d' = toordinal d1 - int n" by blast
  have "date_le d' d" by (rule date_le_less_trans[OF le l1])
  moreover have "toordinal d' = toordinal d - int (Suc n)" using o o1 by simp
  ultimately show ?case using d1 b vd by simp
qed

lemma forward_within:
  assumes "valid_date d" "n \<le> 28"
    "year d < MAXYEAR \<or> month d < 12 \<or> day d + int n \<le> 31"
  shows "\<exists>d'. forward n d = Inr d' \<and> valid_date d'"
  using assms
proof (induction n arbitrary: d)
  case 0
  then show ?case by simp
next
  case (Suc n)
  have v: "valid_date d" by fact
  have dec: "days_in_month (year d) 12 = 31" by (simp add: days_in_month_def)
  have inv: "year d < MAXYEAR \<or> month d < 12 \<or> day d + int (Suc n) \<le> 31" by fact
  have step: "\<exists>d1. next_day d = Inr d1 \<and>
      (year d1 < MAXYEAR \<or> month d1 < 12 \<or> day d1 + int n \<le> 31)"
  proof (cases "day d < days_in_month (year d) (month d)")
    case True
    then have "next_day d = Inr (d\<lparr>day := day d + 1\<rparr>)" by (simp add: next_day_def)
    with inv show ?thesis by auto
  next
    case False
    show ?thesis
    proof (cases "month d < 12")
      case True
      with False have "next_day d = Inr \<lparr>year = year d, month = month d + 1, day = 1\<rparr>"
        by (simp add: next_day_def)
      moreover have "1 + int n \<le> 31" using Suc.prems(2) by simp
      ultimately show ?thesis by simp
    next
      case nm: False
      with v have m12: "month d = 12" by (simp add: valid_date_def)
      with False dec have "\<not> day d + int (Suc n) \<le> 31" by simp
      with inv nm have ylt: "year d < MAXYEAR" by blast
      with False nm have "next_day d = Inr \<lparr>year = year d + 1, month = 1, day = 1\<rparr>"
        by (simp add: next_day_def)
      then show ?thesis by simp
    qed
  qed
  then obtain d1 where d1: "next_day d = Inr d1"
    and inv1: "year d1 < MAXYEAR \<or> month d1 < 12 \<or> day d1 + int n \<le> 31" by blast
  have v1: "valid_date d1" using next_day_later[OF v d1] by simp
  have "n \<le> 28" using Suc.prems(2) by simp
  from Suc.IH[OF v1 this inv1] obtain d' where "forward n d1 = Inr d'" "valid_date d'" by blast
  with d1 show ?case by simp
qed

lemma weekday_range: "0 \<le> weekday d" "weekday d \<le> 6"
  by (simp_all add: weekday_def)

lemma weekday_first_january:
  assumes "year d = MINYEAR" "month d = 1" "1 \<le> day d"
  shows "weekday d < day d"
proof -
  have "toordinal d = day d"
    using assms by (simp add: toordinal_def days_before_year_def days_before_month_def MINYEAR_def)
  then show ?thesis
    using assms(3) by (simp add: weekday_def) presburger
qed

lemma monday_before:
  fixes k :: int
  shows "(k - (k + 6) mod 7 + 6) mod 7 = 0"
proof -
  have "k - (k + 6) mod 7 + 6 = (k + 6) - (k + 6) mod 7" by simp
  also have "\<dots> = 7 * ((k + 6) div 7)" by (simp add: minus_mod_eq_mult_div)
  finally show ?thesis by simp
qed

lemma this_week_ok:
  assumes v: "valid_date today"
    and ok: "\<not> (year today = MAXYEAR \<and> month today = 12 \<and> 27 \<le> day today)"
  shows "\<exists>r. get_quick_range today ''This Week (Mon-Sun)'' = Inr r"
proof -
  have w: "0 \<le> weekday today" "weekday today \<le> 6" by (rule weekday_range)+
  have "\<exists>start. sub_days today (weekday today) = Inr start \<and> valid_date start
      \<and> date_le start today \<and> toordinal start = toordinal today - weekday today"
  proof (cases "weekday today = 0")
    case True
    with v show ?thesis by (simp add: sub_days_def add_days_def date_le_def)
  next
    case False
    with w have pos: "0 < weekday today" by simp
    then have s: "sub_days today (weekday today) = backward (nat (weekday today)) today"
      by (simp add: sub_days_def add_days_def)
    have n: "nat (weekday today) \<le> 27" using w by simp
    have inv: "MINYEAR < year today \<or> 1 < month today \<or> int (nat (weekday today)) < day today"
    proof (cases "MINYEAR < year today \<or> 1 < month today")
      case True
      then show ?thesis by blast
    next
      case False
      with v have "year today = MINYEAR" "month today = 1" "1 \<le> day today"
        by (auto simp add: valid_date_def)
      from weekday_first_january[OF this] w show ?thesis by simp
    qed
    from backward_props[OF v n inv] s pos show ?thesis by simp
  qed
  then obtain start where s: "sub_days today (weekday today) = Inr start"
    and vs: "valid_date start" and le: "date_le start today"
    and o: "toordinal start = toordinal today - weekday today" by blast
  have monday: "weekday start = 0"
    using monday_before[of "toordinal today"] by (simp add: weekday_def o)
  have inv: "year start < MAXYEAR \<or> month start < 12 \<or> day start + int 6 \<le> 31"
  proof (rule ccontr)
    assume "\<not> ?thesis"
    then have far: "\<not> year start < MAXYEAR" "\<not> month start < 12" "26 \<le> day start"
      by simp_all
    with vs have ys: "year start = MAXYEAR" and ms: "month start = 12"
      by (simp_all add: valid_date_def)
    from v have yt: "year today \<le> MAXYEAR" and mt: "month today \<le> 12"
      by (simp_all add: valid_date_def)
    from le ys ms yt mt have t: "year today = MAXYEAR" "month today = 12"
      "day start \<le> day today"
      by (auto simp add: date_le_def date_less_def)
    with ok far(3) have "day start = 26" by simp
    with ys ms have "toordinal start = 3652054"
      by (simp add: toordinal_def days_before_year_def days_before_month_def is_leap_def
            MAXYEAR_def)
    then have "weekday start = 6" by (simp add: weekday_def)
    with monday show False by simp
  qed
  from forward_within[OF vs _ inv] obtain e where "forward 6 start = Inr e" by auto
  then have "add_days start 6 = Inr e" by (simp add: add_days_def)
  with s show ?thesis by (simp add: get_quick_range_def)
qed

lemma this_week_overflow:
  assumes v: "valid_date today"
    and late: "year today = MAXYEAR \<and> month today = 12 \<and> 27 \<le> day today"
  shows "get_quick_range today ''This Week (Mon-Sun)'' = Inl OverflowError"
proof -
  have c: "get_quick_range \<lparr>year = 9999, month = 12, day = 27\<rparr> ''This Week (Mon-Sun)''
      = Inl OverflowError"
    "get_quick_range \<lparr>year = 9999, month = 12, day = 28\<rparr> ''This Week (Mon-Sun)''
      = Inl OverflowError"
    "get_quick_range \<lparr>year = 9999, month = 12, day = 29\<rparr> ''This Week (Mon-Sun)''
      = Inl OverflowError"
    "get_quick_range \<lparr>year = 9999, month = 12, day = 30\<rparr> ''This Week (Mon-Sun)''
      = Inl OverflowError"
    "get_quick_range \<lparr>year = 9999, month = 12, day = 31\<rparr> ''This Week (Mon-Sun)''
      = Inl OverflowError"
    by code_simp+
  have t: "today = \<lparr>year = 9999, month = 12, day = day today\<rparr>"
    using late by (cases today) (simp add: MAXYEAR_def)
  from v late have "day today \<le> 31" by (simp add: valid_date_def days_in_month_def)
  with late have "day today = 27 \<or> day today = 28 \<or> day today = 29 \<or> day today = 30
      \<or> day today = 31" by arith
  then show ?thesis
    by (elim disjE) (subst t, simp only: c)+
qed

lemma this_year_total:
  assumes v: "valid_date today"
  shows "get_quick_range today ''This Year'' =
     Inr (\<lparr>year = year today, month = 1, day = 1\<rparr>, \<lparr>year = year today, month = 12, day = 31\<rparr>)"
  using v
  by (simp add: get_quick_range_def date_new_def valid_date_def days_in_month_def)

section \<open>Claims\<close>

text \<open>
  C1. For every set of trips handed to the report, the deduction in the summary is the
  total of the miles times the fixed rate 0.725, and the total is the sum of the miles
  (0 for no trips). For totals 0, 1 and 123.45 the deduction is 0, 0.725 and 89.50125.
\<close>

theorem deduction_is_rate_times_miles:
  "total_deduction (generate_irs_pdf trips_df expenses_df start_date end_date)
     = total_miles (generate_irs_pdf trips_df expenses_df start_date end_date) * 0.725
   \<and> total_miles (generate_irs_pdf trips_df expenses_df start_date end_date)
     = sum_list (map miles trips_df)
   \<and> (sum_list (map miles trips_df) = 0 \<longrightarrow>
        total_deduction (generate_irs_pdf trips_df expenses_df start_date end_date) = 0)
   \<and> (sum_list (map miles trips_df) = 1 \<longrightarrow>
        total_deduction (generate_irs_pdf trips_df expenses_df start_date end_date) = 0.725)
   \<and> (sum_list (map miles trips_df) = 123.45 \<longrightarrow>
        total_deduction (generate_irs_pdf trips_df expenses_df start_date end_date) = 89.50125)"
  by (cases trips_df) (simp_all add: generate_irs_pdf_def IRS_RATE_PER_MILE_def Let_def)

text \<open>The same on one trip of 123.45 miles in March 2024.\<close>

theorem deduction_is_rate_times_miles_witness:
  "sum_list (map miles [sample_trip ''2024-03-10'' 123.45 None]) = 123.45
   \<and> total_deduction (generate_irs_pdf [sample_trip ''2024-03-10'' 123.45 None] []
        \<lparr>year = 2024, month = 3, day = 1\<rparr> \<lparr>year = 2024, month = 3, day = 31\<rparr>) = 89.50125"
  using deduction_is_rate_times_miles [of "[sample_trip ''2024-03-10'' 123.45 None]" "[]"
      "\<lparr>year = 2024, month = 3, day = 1\<rparr>" "\<lparr>year = 2024, month = 3, day = 31\<rparr>"]
  by (simp add: sample_trip_def)



text \<open>
  C3 (as the code has it). For every valid \<open>today\<close> outside December 9999, ``This
  Month'' runs from the first day of today's month to its last day, found by adding four
  days to day 28 and stepping back one day from the first of the month reached. In
  December 9999 the four added days leave the calendar and the resolver raises
  \<^verbatim>\<open>OverflowError\<close>.
\<close>

theorem this_month_first_to_last_day:
  assumes "valid_date today"
  shows "(\<not> (year today = MAXYEAR \<and> month today = 12) \<longrightarrow>
            get_quick_range today ''This Month'' =
              Inr (today\<lparr>day := 1\<rparr>,
                   today\<lparr>day := days_in_month (year today) (month today)\<rparr>))
       \<and> (year today = MAXYEAR \<and> month today = 12 \<longrightarrow>
            get_quick_range today ''This Month'' = Inl OverflowError)"
  using this_month_general[OF assms] this_month_overflow[OF assms] by blast

text \<open>15 February of a leap year and of a common year.\<close>

theorem this_month_first_to_last_day_witness:
  "get_quick_range \<lparr>year = 2024, month = 2, day = 15\<rparr> ''This Month''
     = Inr (\<lparr>year = 2024, month = 2, day = 1\<rparr>, \<lparr>year = 2024, month = 2, day = 29\<rparr>)
   \<and> get_quick_range \<lparr>year = 2023, month = 2, day = 15\<rparr> ''This Month''
     = Inr (\<lparr>year = 2023, month = 2, day = 1\<rparr>, \<lparr>year = 2023, month = 2, day = 28\<rparr>)"
proof -
  have v: "valid_date \<lparr>year = 2024, month = 2, day = 15\<rparr>"
    "valid_date \<lparr>year = 2023, month = 2, day = 15\<rparr>"
    by (simp_all add: valid_date_def days_in_month_def is_leap_def MINYEAR_def MAXYEAR_def)
  show ?thesis
    using this_month_first_to_last_day[OF v(1)] this_month_first_to_last_day[OF v(2)]
    by (simp add: days_in_month_def is_leap_def MAXYEAR_def)
qed

text \<open>The claim as written, for every \<open>today\<close>, fails on 15 December 9999.\<close>

theorem this_month_december_9999:
  "get_quick_range \<lparr>year = 9999, month = 12, day = 15\<rparr> ''This Month'' = Inl OverflowError"
  by code_simp

text \<open>
  C4. Whenever the reports page shows a report whose selected trips are empty, the miles
  metric and the total miles of the generated document are 0, and likewise the expenses
  metric and total for an empty selection of expenses. Once the range is resolved the
  page raises no error, and the document itself totals an empty frame to 0.
\<close>

theorem empty_selection_sums_to_zero:
  "(\<forall>r. show_reports today trips expenses quick custom_start custom_end generate
          = Inr (Report r) \<longrightarrow>
        (shown_trips r = [] \<longrightarrow>
           miles_metric r = 0 \<and> (\<forall>doc. pdf r = Some doc \<longrightarrow> total_miles doc = 0))
      \<and> (shown_expenses r = [] \<longrightarrow>
           expenses_metric r = 0 \<and> (\<forall>doc. pdf r = Some doc \<longrightarrow> total_expenses doc = 0)))
   \<and> (\<forall>rng. (if quick = ''Custom'' then Inr (custom_start, custom_end)
             else get_quick_range today quick) = Inr rng \<longrightarrow>
        (\<exists>v. show_reports today trips expenses quick custom_start custom_end generate = Inr v))
   \<and> total_miles (generate_irs_pdf [] expenses start_date end_date) = 0
   \<and> total_expenses (generate_irs_pdf trips [] start_date end_date) = 0"
proof -
  have a: "(shown_trips r = [] \<longrightarrow>
           miles_metric r = 0 \<and> (\<forall>doc. pdf r = Some doc \<longrightarrow> total_miles doc = 0))
      \<and> (shown_expenses r = [] \<longrightarrow>
           expenses_metric r = 0 \<and> (\<forall>doc. pdf r = Some doc \<longrightarrow> total_expenses doc = 0))"
    if "show_reports today trips expenses quick custom_start custom_end generate = Inr (Report r)"
    for r
    using that
    by (auto simp add: show_reports_def generate_irs_pdf_def Let_def
          split: if_splits sum.splits prod.splits)
  have b: "\<exists>v. show_reports today trips expenses quick custom_start custom_end generate = Inr v"
    if "(if quick = ''Custom'' then Inr (custom_start, custom_end)
             else get_quick_range today quick) = Inr rng" for rng
    using that by (cases rng) (simp add: show_reports_def Let_def)
  have c: "total_miles (generate_irs_pdf [] expenses start_date end_date) = 0"
    "total_expenses (generate_irs_pdf trips [] start_date end_date) = 0"
    by (simp_all add: generate_irs_pdf_def Let_def)
  from a b c show ?thesis by blast
qed

text \<open>One trip and one expense of March 2024, reported for January 2025.\<close>

theorem empty_selection_sums_to_zero_witness:
  "\<exists>r. show_reports \<lparr>year = 2026, month = 11, day = 4\<rparr>
          [sample_trip ''2024-03-10'' 50 None] [sample_expense ''2024-03-10'' 40 None] ''Custom''
          \<lparr>year = 2025, month = 1, day = 1\<rparr> \<lparr>year = 2025, month = 1, day = 31\<rparr> True
        = Inr (Report r)
      \<and> shown_trips r = [] \<and> shown_expenses r = []
      \<and> miles_metric r = 0 \<and> expenses_metric r = 0
      \<and> (\<exists>doc. pdf r = Some doc \<and> total_miles doc = 0 \<and> total_expenses doc = 0)"
proof -
  let ?today = "\<lparr>year = 2026, month = 11, day = 4\<rparr>"
  let ?s = "\<lparr>year = 2025, month = 1, day = 1\<rparr>"
  let ?e = "\<lparr>year = 2025, month = 1, day = 31\<rparr>"
  let ?ts = "[sample_trip ''2024-03-10'' 50 None]"
  let ?es = "[sample_expense ''2024-03-10'' 40 None]"
  have i: "isoformat ?s = ''2025-01-01''" "isoformat ?e = ''2025-01-31''" by code_simp+
  have "\<exists>r. show_reports ?today ?ts ?es ''Custom'' ?s ?e True = Inr (Report r)
      \<and> shown_trips r = [] \<and> shown_expenses r = [] \<and> (\<exists>doc. pdf r = Some doc)"
    by (simp add: show_reports_def trips_in_range_def expenses_in_range_def Let_def i
          sample_trip_def sample_expense_def)
  then obtain r where r: "show_reports ?today ?ts ?es ''Custom'' ?s ?e True = Inr (Report r)"
    and t: "shown_trips r = []" and e: "shown_expenses r = []"
    and d: "\<exists>doc. pdf r = Some doc" by blast
  from empty_selection_sums_to_zero[of ?today ?ts ?es "''Custom''" ?s ?e True] r t e
  have z: "miles_metric r = 0 \<and> (\<forall>doc. pdf r = Some doc \<longrightarrow> total_miles doc = 0)"
    "expenses_metric r = 0 \<and> (\<forall>doc. pdf r = Some doc \<longrightarrow> total_expenses doc = 0)"
    by blast+
  with r t e d show ?thesis by blast
qed

text \<open>
  C5. With miles left at 0 and odometer readings \<open>0 \<le> start < end'\<close>, saving a trip
  appends one row to the trips table, and its miles are \<open>end' - start\<close>.
\<close>

theorem odometer_difference_saved:
  assumes "0 \<le> start" "start < end'"
  shows "\<exists>r. trips_tbl (snd (show_log_trip trip_day start end' 0 notes_in img True now s))
            = trips_tbl s @ [r]
          \<and> miles r = end' - start"
  using assms by (simp add: show_log_trip_def insert_trip_def)

text \<open>Odometer 1000 to 1042.5 on an empty store.\<close>

theorem odometer_difference_saved_witness:
  "(0::real) \<le> 1000 \<and> (1000::real) < 1042.5 \<and>
   (\<exists>r. trips_tbl (snd (show_log_trip \<lparr>year = 2024, month = 3, day = 10\<rparr> 1000 1042.5 0
            ''airport run'' None True ''2024-03-10T18:00:00'' empty_db)) = trips_tbl empty_db @ [r]
        \<and> miles r = 1042.5 - 1000)"
  using odometer_difference_saved [of 1000 "1042.5" "\<lparr>year = 2024, month = 3, day = 10\<rparr>"
      "''airport run''" None "''2024-03-10T18:00:00''" empty_db]
  by simp

text \<open>
  C6. Saving a trip with miles 0 and \<open>end' \<le> start\<close> shows the error message and leaves
  the store as it was; so does saving an expense with an amount \<open>\<le> 0\<close>.
\<close>

theorem invalid_submission_not_persisted:
  "(end' \<le> start \<longrightarrow>
      show_log_trip trip_day start end' 0 notes_in img True now s
        = (Some (Error_msg ''Enter miles OR valid odometer readings.''), s))
   \<and> (amount_in \<le> 0 \<longrightarrow>
      show_log_expense expense_day category_in amount_in desc receipt True now s
        = (Some (Error_msg ''Enter valid amount.''), s))"
  by (simp add: show_log_trip_def show_log_expense_def)

text \<open>Equal odometer readings, and an amount of -3.\<close>

theorem invalid_submission_not_persisted_witness:
  "((500::real) \<le> 500 \<and>
      show_log_trip \<lparr>year = 2024, month = 3, day = 10\<rparr> 500 500 0 ''x'' None True ''t'' empty_db
        = (Some (Error_msg ''Enter miles OR valid odometer readings.''), empty_db))
   \<and> ((-3::real) \<le> 0 \<and>
      show_log_expense \<lparr>year = 2024, month = 3, day = 10\<rparr> ''Gas'' (-3) ''fuel'' None True ''t'' empty_db
        = (Some (Error_msg ''Enter valid amount.''), empty_db))"
  using invalid_submission_not_persisted [of 500 500 "\<lparr>year = 2024, month = 3, day = 10\<rparr>"
      "''x''" None "''t''" empty_db "-3" "\<lparr>year = 2024, month = 3, day = 10\<rparr>" "''Gas''" "''fuel''" None]
  by simp

text \<open>
  C7. In ``Custom'' mode the page never raises an error; when there is any data the
  report carries the two dates exactly as supplied, whatever their order, and for an
  inverted range of valid dates both selections are empty and both metrics are 0.
\<close>

theorem custom_range_unvalidated:
  "\<exists>v. show_reports today trips expenses ''Custom'' custom_start custom_end generate = Inr v
     \<and> (\<not> (trips = [] \<and> expenses = []) \<longrightarrow>
          (\<exists>r. v = Report r \<and> range_start r = custom_start \<and> range_end r = custom_end
             \<and> (valid_date custom_start \<and> valid_date custom_end
                  \<and> date_less custom_end custom_start \<longrightarrow>
                 shown_trips r = [] \<and> shown_expenses r = []
                   \<and> miles_metric r = 0 \<and> expenses_metric r = 0)))"
proof (cases "trips = [] \<and> expenses = []")
  case True
  then show ?thesis by (simp add: show_reports_def)
next
  case False
  have e: "trips_in_range trips custom_start custom_end = []
      \<and> expenses_in_range expenses custom_start custom_end = []"
    if "valid_date custom_start" "valid_date custom_end" "date_less custom_end custom_start"
    using inverted_range_empty[OF that]
    by (simp add: trips_in_range_def expenses_in_range_def)
  from False e show ?thesis
    by (auto simp add: show_reports_def Let_def)
qed

text \<open>From 31 March back to 1 March 2024, with one trip and one expense stored.\<close>

theorem custom_range_unvalidated_witness:
  "\<exists>r. show_reports \<lparr>year = 2026, month = 11, day = 4\<rparr>
          [sample_trip ''2024-03-10'' 50 None] [sample_expense ''2024-03-10'' 40 None] ''Custom''
          \<lparr>year = 2024, month = 3, day = 31\<rparr> \<lparr>year = 2024, month = 3, day = 1\<rparr> False
        = Inr (Report r)
      \<and> range_start r = \<lparr>year = 2024, month = 3, day = 31\<rparr>
      \<and> range_end r = \<lparr>year = 2024, month = 3, day = 1\<rparr>
      \<and> shown_trips r = [] \<and> shown_expenses r = []"
proof -
  let ?s = "\<lparr>year = 2024, month = 3, day = 31\<rparr>"
  let ?e = "\<lparr>year = 2024, month = 3, day = 1\<rparr>"
  have v: "valid_date ?s \<and> valid_date ?e \<and> date_less ?e ?s"
    by (simp add: valid_date_def days_in_month_def MINYEAR_def MAXYEAR_def date_less_def)
  have n: "\<not> ([sample_trip ''2024-03-10'' 50 None] = []
      \<and> [sample_expense ''2024-03-10'' 40 None] = [])" by simp
  from custom_range_unvalidated[of "\<lparr>year = 2026, month = 11, day = 4\<rparr>"
      "[sample_trip ''2024-03-10'' 50 None]" "[sample_expense ''2024-03-10'' 40 None]" ?s ?e False]
    v n
  show ?thesis by blast
qed

text \<open>
  C8. Every note cell of the trip table and every description cell of the expense table
  holds the first 70 characters of the stored text; a text of 100 characters gives a cell
  of exactly 70, and a missing text gives the empty cell.
\<close>

theorem notes_truncated_to_70:
  "(trips_df \<noteq> [] \<longrightarrow>
      trip_log (generate_irs_pdf trips_df expenses_df start_date end_date)
        = Rows (map (\<lambda>row. \<lparr>row_date = trip_date row, row_miles = miles row,
                      row_notes = take 70 (case trip_notes row of None \<Rightarrow> [] | Some txt \<Rightarrow> txt)\<rparr>)
                  trips_df))
   \<and> (expenses_df \<noteq> [] \<longrightarrow>
      expense_log (generate_irs_pdf trips_df expenses_df start_date end_date)
        = Rows (map (\<lambda>row. \<lparr>erow_date = expense_date row, erow_category = category row,
                      erow_amount = amount row,
                      erow_description =
                        take 70 (case description row of None \<Rightarrow> [] | Some txt \<Rightarrow> txt)\<rparr>)
                  expenses_df))
   \<and> (\<forall>(row::trip) txt. trip_notes row = Some txt \<and> length txt = 100 \<longrightarrow>
        (\<exists>cell. trip_log (generate_irs_pdf [row] expenses_df start_date end_date) = Rows [cell]
           \<and> row_notes cell = take 70 txt \<and> length (row_notes cell) = 70))
   \<and> (\<forall>(row::expense) txt. description row = Some txt \<and> length txt = 100 \<longrightarrow>
        (\<exists>cell. expense_log (generate_irs_pdf trips_df [row] start_date end_date) = Rows [cell]
           \<and> erow_description cell = take 70 txt \<and> length (erow_description cell) = 70))
   \<and> (\<forall>row::trip. trip_notes row = None \<longrightarrow>
        (\<exists>cell. trip_log (generate_irs_pdf [row] expenses_df start_date end_date) = Rows [cell]
           \<and> row_notes cell = []))
   \<and> (\<forall>row::expense. description row = None \<longrightarrow>
        (\<exists>cell. expense_log (generate_irs_pdf trips_df [row] start_date end_date) = Rows [cell]
           \<and> erow_description cell = []))"
proof -
  have oe: "or_empty x = (case x of None \<Rightarrow> [] | Some txt \<Rightarrow> txt)" for x
    by (simp add: or_empty_def split: option.splits)
  show ?thesis
    by (simp add: generate_irs_pdf_def Let_def oe)
qed

text \<open>A note of one hundred letters.\<close>

theorem notes_truncated_to_70_witness:
  "\<exists>cell. trip_log (generate_irs_pdf
              [sample_trip ''2024-03-10'' 50 (Some (replicate 100 (CHR ''x'')))] []
              \<lparr>year = 2024, month = 3, day = 1\<rparr> \<lparr>year = 2024, month = 3, day = 31\<rparr>)
            = Rows [cell]
         \<and> row_notes cell = take 70 (replicate 100 (CHR ''x''))
         \<and> length (row_notes cell) = 70"
proof -
  have h: "trip_notes (sample_trip ''2024-03-10'' 50 (Some (replicate 100 (CHR ''x''))))
             = Some (replicate 100 (CHR ''x''))
           \<and> length (replicate 100 (CHR ''x'')) = 100"
    by (simp add: sample_trip_def)
  from notes_truncated_to_70[of "[]" "[]" "\<lparr>year = 2024, month = 3, day = 1\<rparr>"
      "\<lparr>year = 2024, month = 3, day = 31\<rparr>"] h
  show ?thesis by blast
qed

text \<open>
  C9 (as the code has it). For every name other than the three quick ranges the resolver
  returns \<open>(today, today)\<close>, for every \<open>today\<close>. ``This Year'' never raises an error.
  ``This Month'' returns a range exactly when today is not in December 9999, and ``This
  Week (Mon-Sun)'' exactly when today is before 27 December 9999; on the remaining dates
  they raise \<^verbatim>\<open>OverflowError\<close>.
\<close>

theorem resolver_fallback_and_totality:
  assumes "valid_date today"
  shows "(name \<noteq> ''This Week (Mon-Sun)'' \<and> name \<noteq> ''This Month'' \<and> name \<noteq> ''This Year''
            \<longrightarrow> get_quick_range today name = Inr (today, today))
       \<and> (\<exists>r. get_quick_range today ''This Year'' = Inr r)
       \<and> ((\<exists>r. get_quick_range today ''This Month'' = Inr r)
            \<longleftrightarrow> \<not> (year today = MAXYEAR \<and> month today = 12))
       \<and> (year today = MAXYEAR \<and> month today = 12
            \<longrightarrow> get_quick_range today ''This Month'' = Inl OverflowError)
       \<and> ((\<exists>r. get_quick_range today ''This Week (Mon-Sun)'' = Inr r)
            \<longleftrightarrow> \<not> (year today = MAXYEAR \<and> month today = 12 \<and> 27 \<le> day today))
       \<and> (year today = MAXYEAR \<and> month today = 12 \<and> 27 \<le> day today
            \<longrightarrow> get_quick_range today ''This Week (Mon-Sun)'' = Inl OverflowError)"
proof -
  have a: "name \<noteq> ''This Week (Mon-Sun)'' \<and> name \<noteq> ''This Month'' \<and> name \<noteq> ''This Year''
            \<longrightarrow> get_quick_range today name = Inr (today, today)"
    by (simp add: get_quick_range_def)
  have y: "\<exists>r. get_quick_range today ''This Year'' = Inr r"
    using this_year_total[OF assms] by simp
  have m1: "\<exists>r. get_quick_range today ''This Month'' = Inr r"
    if "\<not> (year today = MAXYEAR \<and> month today = 12)"
    using this_month_general[OF assms that] by simp
  have m2: "get_quick_range today ''This Month'' = Inl OverflowError"
    if "year today = MAXYEAR \<and> month today = 12"
    using this_month_overflow[OF assms that] .
  have w1: "\<exists>r. get_quick_range today ''This Week (Mon-Sun)'' = Inr r"
    if "\<not> (year today = MAXYEAR \<and> month today = 12 \<and> 27 \<le> day today)"
    using this_week_ok[OF assms that] .
  have w2: "get_quick_range today ''This Week (Mon-Sun)'' = Inl OverflowError"
    if "year today = MAXYEAR \<and> month today = 12 \<and> 27 \<le> day today"
    using this_week_overflow[OF assms that] .
  have mi: "(\<exists>r. get_quick_range today ''This Month'' = Inr r)
            \<longleftrightarrow> \<not> (year today = MAXYEAR \<and> month today = 12)"
    using m1 m2 by (metis Inl_Inr_False)
  have wi: "(\<exists>r. get_quick_range today ''This Week (Mon-Sun)'' = Inr r)
            \<longleftrightarrow> \<not> (year today = MAXYEAR \<and> month today = 12 \<and> 27 \<le> day today)"
    using w1 w2 by (metis Inl_Inr_False)
  from a y mi m2 wi w2 show ?thesis by blast
qed

text \<open>
  An unknown name on 4 November 2026; the last week and a month of year 9999 that still
  resolve; the first day on which the week does not.
\<close>

theorem resolver_fallback_and_totality_witness:
  "get_quick_range \<lparr>year = 2026, month = 11, day = 4\<rparr> ''Last Quarter''
     = Inr (\<lparr>year = 2026, month = 11, day = 4\<rparr>, \<lparr>year = 2026, month = 11, day = 4\<rparr>)
   \<and> (\<exists>r. get_quick_range \<lparr>year = 9999, month = 12, day = 26\<rparr> ''This Week (Mon-Sun)'' = Inr r)
   \<and> (\<exists>r. get_quick_range \<lparr>year = 9999, month = 6, day = 15\<rparr> ''This Month'' = Inr r)
   \<and> get_quick_range \<lparr>year = 9999, month = 12, day = 27\<rparr> ''This Week (Mon-Sun)''
       = Inl OverflowError"
proof -
  have v: "valid_date \<lparr>year = 2026, month = 11, day = 4\<rparr>"
    "valid_date \<lparr>year = 9999, month = 12, day = 26\<rparr>"
    "valid_date \<lparr>year = 9999, month = 6, day = 15\<rparr>"
    "valid_date \<lparr>year = 9999, month = 12, day = 27\<rparr>"
    by (simp_all add: valid_date_def days_in_month_def MINYEAR_def MAXYEAR_def)
  have a: "get_quick_range \<lparr>year = 2026, month = 11, day = 4\<rparr> ''Last Quarter''
     = Inr (\<lparr>year = 2026, month = 11, day = 4\<rparr>, \<lparr>year = 2026, month = 11, day = 4\<rparr>)"
    using resolver_fallback_and_totality[OF v(1), of "''Last Quarter''"] by simp
  have b: "\<exists>r. get_quick_range \<lparr>year = 9999, month = 12, day = 26\<rparr> ''This Week (Mon-Sun)''
      = Inr r"
    using resolver_fallback_and_totality[OF v(2), of "''x''"] by simp
  have c: "\<exists>r. get_quick_range \<lparr>year = 9999, month = 6, day = 15\<rparr> ''This Month'' = Inr r"
    using resolver_fallback_and_totality[OF v(3), of "''x''"] by simp
  have d: "get_quick_range \<lparr>year = 9999, month = 12, day = 27\<rparr> ''This Week (Mon-Sun)''
       = Inl OverflowError"
    using resolver_fallback_and_totality[OF v(4), of "''x''"] by (simp add: MAXYEAR_def)
  from a b c d show ?thesis by blast
qed

text \<open>
  The claim as written, no error for any selector, fails for ``This Week (Mon-Sun)'' on
  31 December 9999: the Sunday of that week is past the last date.
\<close>

theorem this_week_end_of_9999:
  "get_quick_range \<lparr>year = 9999, month = 12, day = 31\<rparr> ''This Week (Mon-Sun)''
     = Inl OverflowError"
  by code_simp

text \<open>
  C10. The trip form does not keep negative miles out of the store: a submission with
  miles -5 and no odometer readings is saved with miles -5.
\<close>

theorem negative_miles_persisted:
  "map miles (trips_tbl (snd (show_log_trip \<lparr>year = 2024, month = 3, day = 10\<rparr> 0 0 (-5)
      ''return leg'' None True ''2024-03-10T18:00:00'' empty_db))) = [-5]"
  by (simp add: show_log_trip_def insert_trip_def empty_db_def)

end
